theory Spec2Isabelle
  imports Main "HOL-Library.Signed_Division"
begin

section \<open>JavaScript values and strings\<close>

text \<open>
  The extension is JavaScript. A value whose type the source tests at run time
  (\<^verbatim>\<open>typeof x === 'string'\<close>, \<^verbatim>\<open>!x\<close>) is a \<open>js_value\<close>; a value that the source has
  already narrowed to "string or null" is a \<open>string option\<close> with \<open>None\<close> for \<^verbatim>\<open>null\<close>.
  A \<open>char\<close> stands for one code unit below 256, and \<open>JNumber\<close> carries the
  integer-valued numbers only: no claim depends on a fraction.
\<close>

datatype js_value = JNull | JUndefined | JBool bool | JNumber int | JString string | JObject

text \<open>\<^verbatim>\<open>!v\<close> is \<open>\<not> truthy v\<close> (ToBoolean).\<close>

fun truthy :: "js_value \<Rightarrow> bool" where
  "truthy JNull = False"
| "truthy JUndefined = False"
| "truthy (JBool b) = b"
| "truthy (JNumber n) = (n \<noteq> 0)"
| "truthy (JString s) = (s \<noteq> [])"
| "truthy JObject = True"

fun typeof :: "js_value \<Rightarrow> string" where
  "typeof JNull = ''object''"
| "typeof JUndefined = ''undefined''"
| "typeof (JBool b) = ''boolean''"
| "typeof (JNumber n) = ''number''"
| "typeof (JString s) = ''string''"
| "typeof JObject = ''object''"

text \<open>
  The characters that the regular expression class \<^verbatim>\<open>\s\<close> matches and that
  \<^verbatim>\<open>String.prototype.trim\<close> strips, among the code units below 256: tab, line feed,
  vertical tab, form feed, carriage return, space and no-break space.
\<close>

definition isWhiteSpace :: "char \<Rightarrow> bool" where
  "isWhiteSpace c =
     (c \<in> set [CHR 0x09, CHR 0x0A, CHR 0x0B, CHR 0x0C, CHR 0x0D, CHR 0x20, CHR 0xA0])"

text \<open>
  \<^verbatim>\<open>s.split(/\s+/)\<close>: the pieces of \<open>s\<close> between the maximal runs of white space. A
  run at the start or at the end of \<open>s\<close> leaves an empty piece there, and the empty
  string splits into one empty piece.
\<close>

function split_ws :: "string \<Rightarrow> string list" where
  "split_ws s =
     (if dropWhile (\<lambda>c. \<not> isWhiteSpace c) s = [] then [s]
      else takeWhile (\<lambda>c. \<not> isWhiteSpace c) s
             # split_ws (dropWhile isWhiteSpace (dropWhile (\<lambda>c. \<not> isWhiteSpace c) s)))"
  by pat_completeness auto
termination
proof (relation "measure length", goal_cases)
  case 1
  show ?case by simp
next
  case (2 s)
  let ?r = "dropWhile (\<lambda>c. \<not> isWhiteSpace c) s"
  from 2 have "isWhiteSpace (hd ?r)"
    using hd_dropWhile [of "\<lambda>c. \<not> isWhiteSpace c" s] by simp
  with 2 have "length (dropWhile isWhiteSpace ?r) < length ?r"
    by (cases ?r) (simp_all add: less_Suc_eq_le length_dropWhile_le)
  also have "\<dots> \<le> length s"
    by (rule length_dropWhile_le)
  finally show ?case by simp
qed

declare split_ws.simps [simp del]

definition trim :: "string \<Rightarrow> string" where
  "trim s = dropWhile isWhiteSpace (rev (dropWhile isWhiteSpace (rev s)))"

text \<open>\<^verbatim>\<open>s.includes(t)\<close>: \<open>t\<close> occurs in \<open>s\<close> as a contiguous substring.\<close>

fun startsWith :: "string \<Rightarrow> string \<Rightarrow> bool" where
  "startsWith s [] = True"
| "startsWith [] (c # cs) = False"
| "startsWith (x # xs) (c # cs) = (x = c \<and> startsWith xs cs)"

fun includesStr :: "string \<Rightarrow> string \<Rightarrow> bool" where
  "includesStr [] t = (t = [])"
| "includesStr (x # xs) t = (startsWith (x # xs) t \<or> includesStr xs t)"

text \<open>
  Reading an array of strings: \<^verbatim>\<open>parts[i]\<close> is \<^verbatim>\<open>undefined\<close> beyond the end, and
  \<^verbatim>\<open>parts[i] || d\<close> is the default \<open>d\<close> when \<^verbatim>\<open>parts[i]\<close> is \<^verbatim>\<open>undefined\<close> or empty.
\<close>

definition js_index :: "string list \<Rightarrow> nat \<Rightarrow> js_value" where
  "js_index parts i = (if i < length parts then JString (parts ! i) else JUndefined)"

definition index_or :: "string list \<Rightarrow> nat \<Rightarrow> string \<Rightarrow> string" where
  "index_or parts i d = (if i < length parts \<and> parts ! i \<noteq> [] then parts ! i else d)"

section \<open>The field normalizer: \<^verbatim>\<open>splitFen\<close> (mainListener.js)\<close>

record fen_fields =
  placement :: js_value
  active :: string
  castling :: string
  ep :: string
  half :: string
  full :: string
  raw :: string

text \<open>The loop \<^verbatim>\<open>while (parts.length < 6) parts.push('-')\<close>.\<close>

function pad_parts :: "string list \<Rightarrow> string list" where
  "pad_parts parts = (if length parts < 6 then pad_parts (parts @ [''-'']) else parts)"
  by pat_completeness auto
termination
  by (relation "measure (\<lambda>parts. 6 - length parts)") auto

declare pad_parts.simps [simp del]

definition splitFen :: "string option \<Rightarrow> fen_fields option" where
  "splitFen fen =
     (case fen of
        None \<Rightarrow> None
      | Some s \<Rightarrow>
          if s = [] then None
          else
            let parts = pad_parts (split_ws s)
            in Some \<lparr> placement = js_index parts 0,
                      active = index_or parts 1 ''?'',
                      castling = index_or parts 2 ''-'',
                      ep = index_or parts 3 ''-'',
                      half = index_or parts 4 ''0'',
                      full = index_or parts 5 ''1'',
                      raw = s \<rparr>)"

section \<open>FEN completion and game end (chess_engine_setup.js)\<close>

text \<open>
  \<^verbatim>\<open>completeFen\<close> is the same function in both copies of the engine script. The template
  literal joins six strings with single spaces.
\<close>

definition completeFen :: "js_value \<Rightarrow> string option" where
  "completeFen partialFen =
     (if \<not> truthy partialFen \<or> typeof partialFen \<noteq> ''string'' then None
      else
        case partialFen of
          JString s \<Rightarrow>
            let parts = split_ws (trim s);
                pieces = index_or parts 0 [];
                turn = index_or parts 1 ''w'';
                castling = index_or parts 2 ''KQkq'';
                enPassant = index_or parts 3 ''-'';
                halfmove = index_or parts 4 ''0'';
                fullmove = index_or parts 5 ''1''
            in Some (pieces @ '' '' @ turn @ '' '' @ castling @ '' '' @ enPassant
                       @ '' '' @ halfmove @ '' '' @ fullmove)
        | _ \<Rightarrow> None)"

text \<open>
  The module state of chess_engine_setup.js. The engine wrapper and the socket are
  objects of the browser; the model keeps a handle for each, \<open>None\<close> for \<^verbatim>\<open>null\<close>.
\<close>

record engine_globals =
  chessEngine :: "nat option"
  webSocketWrapper :: "nat option"
  currentFen :: "string option"
  bestMove :: "string option"
  gameId :: "string option"
  isWhite :: "bool option"
  timeLimitMs :: int
  autoMoveEnabled :: bool

definition handleGameEnd :: "engine_globals \<Rightarrow> engine_globals" where
  "handleGameEnd g =
     g\<lparr> currentFen := None, bestMove := None, gameId := None, isWhite := None \<rparr>"

section \<open>The position reader: \<^verbatim>\<open>getFEN\<close> (mainListener.js)\<close>

text \<open>
  What \<^verbatim>\<open>document.querySelector(SELECTOR)?.game?.getFEN?.()\<close> meets at the moment of a
  read: no board element, an element without \<^verbatim>\<open>game\<close>, a game without \<^verbatim>\<open>getFEN\<close>, an
  accessor (or a query) that throws, or an accessor that returns a value.
\<close>

datatype dom_source =
  ElementMissing | GameMissing | AccessorMissing | AccessorThrows | AccessorReturns js_value

fun getFEN :: "dom_source \<Rightarrow> string option" where
  "getFEN (AccessorReturns (JString s)) = Some (trim s)"
| "getFEN _ = None"

section \<open>The change stabilizer (mainListener.js)\<close>

text \<open>
  mainListener.js holds the listener twice. The first copy always sets
  \<^verbatim>\<open>window.__FEN_LISTENER__\<close>, so the second returns at its first line: one listener
  runs, the one modelled here.
\<close>

definition STABLE_DELAY_MS :: int where
  "STABLE_DELAY_MS = 220"

definition CONFIRM_DELAY_MS :: int where
  "CONFIRM_DELAY_MS = 120"

definition MAX_WAIT_MS :: int where
  "MAX_WAIT_MS = 1500"

text \<open>
  The two functions handed to \<^verbatim>\<open>setTimeout\<close>, with what each closure captures:
  \<open>Attempt start\<close> is \<^verbatim>\<open>attempt\<close> of the \<^verbatim>\<open>stableEmit\<close> call that read \<open>start\<close> from the
  clock, and \<open>Confirm start f1\<close> is the arrow function of that \<^verbatim>\<open>attempt\<close> after it
  normalized \<open>f1\<close>. Times are clock readings of \<^verbatim>\<open>performance.now()\<close> in milliseconds.
\<close>

datatype callback = Attempt int | Confirm int fen_fields

text \<open>
  The variables of the listener, and the part of the browser that it acts on: the
  table of scheduled timeouts (handle, due time, callback), the next handle that
  \<^verbatim>\<open>setTimeout\<close> returns, and the \<^verbatim>\<open>FENPush\<close> events dispatched so far, oldest first.
\<close>

record listener =
  lastSentPlacement :: js_value
  lastSentActive :: js_value
  settleTimer :: "nat option"
  confirmTimer :: "nat option"
  pending :: bool
  timeouts :: "(nat \<times> int \<times> callback) list"
  nextHandle :: nat
  dispatched :: "string list"

definition dispatch :: "string \<Rightarrow> listener \<Rightarrow> listener" where
  "dispatch fen l = (if fen = [] then l else l\<lparr> dispatched := dispatched l @ [fen] \<rparr>)"

definition setTimeout :: "callback \<Rightarrow> int \<Rightarrow> int \<Rightarrow> listener \<Rightarrow> nat \<times> listener" where
  "setTimeout cb delay now l =
     (nextHandle l,
      l\<lparr> timeouts := timeouts l @ [(nextHandle l, now + delay, cb)],
         nextHandle := Suc (nextHandle l) \<rparr>)"

definition clearTimeout :: "nat \<Rightarrow> listener \<Rightarrow> listener" where
  "clearTimeout h l = l\<lparr> timeouts := filter (\<lambda>t. fst t \<noteq> h) (timeouts l) \<rparr>"

text \<open>A handle is a number, so \<^verbatim>\<open>if (settleTimer)\<close> asks for a handle other than 0.\<close>

definition clearTimers :: "listener \<Rightarrow> listener" where
  "clearTimers l =
     (let l1 = (case settleTimer l of
                  Some h \<Rightarrow> if h \<noteq> 0 then (clearTimeout h l)\<lparr> settleTimer := None \<rparr> else l
                | None \<Rightarrow> l)
      in case confirmTimer l1 of
           Some h \<Rightarrow> if h \<noteq> 0 then (clearTimeout h l1)\<lparr> confirmTimer := None \<rparr> else l1
         | None \<Rightarrow> l1)"

text \<open>The body of \<^verbatim>\<open>attempt\<close>, run at time \<open>now\<close> when a read meets \<open>src\<close>.\<close>

definition attempt :: "int \<Rightarrow> int \<Rightarrow> dom_source \<Rightarrow> listener \<Rightarrow> listener" where
  "attempt start now src l =
     (case splitFen (getFEN src) of
        None \<Rightarrow> l\<lparr> pending := False \<rparr>
      | Some f1 \<Rightarrow>
          (case setTimeout (Confirm start f1) CONFIRM_DELAY_MS now l of
             (h, l') \<Rightarrow> l'\<lparr> confirmTimer := Some h \<rparr>))"

text \<open>The body of the confirm callback (lines 173 to 195).\<close>

definition confirm :: "int \<Rightarrow> fen_fields \<Rightarrow> int \<Rightarrow> dom_source \<Rightarrow> listener \<Rightarrow> listener" where
  "confirm start f1 now src l =
     (case splitFen (getFEN src) of
        None \<Rightarrow> l\<lparr> pending := False \<rparr>
      | Some f2 \<Rightarrow>
          let unchanged = (placement f2 = placement f1 \<and> active f2 = active f1);
              isNewPosition = (placement f2 \<noteq> lastSentPlacement l
                                 \<or> JString (active f2) \<noteq> lastSentActive l)
          in if isNewPosition \<and> unchanged then
               (dispatch (raw f2)
                  (l\<lparr> lastSentPlacement := placement f2,
                      lastSentActive := JString (active f2) \<rparr>))\<lparr> pending := False \<rparr>
             else if now - start < MAX_WAIT_MS then
               (case setTimeout (Attempt start) STABLE_DELAY_MS now l of
                  (h, l') \<Rightarrow> l'\<lparr> settleTimer := Some h \<rparr>)
             else l\<lparr> pending := False \<rparr>)"

definition stableEmit :: "int \<Rightarrow> listener \<Rightarrow> listener" where
  "stableEmit now l =
     (case setTimeout (Attempt now) STABLE_DELAY_MS now (l\<lparr> pending := True \<rparr>) of
        (h, l') \<Rightarrow> l'\<lparr> settleTimer := Some h \<rparr>)"

definition onAnyChange :: "int \<Rightarrow> listener \<Rightarrow> listener" where
  "onAnyChange now l = (if pending l then l else stableEmit now l)"

text \<open>The listener after the start-up block (lines 153 to 212) when the first read meets \<open>src\<close>.\<close>

definition startListener :: "dom_source \<Rightarrow> listener" where
  "startListener src =
     (let l0 = \<lparr> lastSentPlacement = JNull, lastSentActive = JNull, settleTimer = None,
                 confirmTimer = None, pending = False, timeouts = [], nextHandle = 1,
                 dispatched = [] \<rparr>
      in case splitFen (getFEN src) of
           Some fi \<Rightarrow>
             dispatch (raw fi)
               (l0\<lparr> lastSentPlacement := placement fi, lastSentActive := JString (active fi) \<rparr>)
         | None \<Rightarrow> l0)"

text \<open>
  What happens to the listener from outside: a watcher calls \<^verbatim>\<open>onAnyChange\<close> at time
  \<open>now\<close>; the browser runs the timeout with handle \<open>h\<close> at time \<open>now\<close>, not before it is
  due, while a read meets \<open>src\<close>; the holder of \<^verbatim>\<open>window.__FEN_LISTENER__\<close> calls the
  exported \<^verbatim>\<open>clearTimers\<close>. A timeout runs once: the browser drops it from its table.
\<close>

datatype event = Change int | Timeout nat int dom_source | Teardown

fun step :: "event \<Rightarrow> listener \<Rightarrow> listener" where
  "step (Change now) l = onAnyChange now l"
| "step (Timeout h now src) l =
     (case find (\<lambda>t. fst t = h) (timeouts l) of
        None \<Rightarrow> l
      | Some (h', due, cb) \<Rightarrow>
          if now < due then l
          else
            (case cb of
               Attempt start \<Rightarrow> attempt start now src (clearTimeout h l)
             | Confirm start f1 \<Rightarrow> confirm start f1 now src (clearTimeout h l)))"
| "step Teardown l = clearTimers l"

fun run :: "event list \<Rightarrow> listener \<Rightarrow> listener" where
  "run [] l = l"
| "run (e # es) l = run es (step e l)"

text \<open>The number of \<^verbatim>\<open>stableEmit\<close> calls, that is of attempts started, along a run.\<close>

fun attemptsStarted :: "event list \<Rightarrow> listener \<Rightarrow> nat" where
  "attemptsStarted [] l = 0"
| "attemptsStarted (Change now # es) l =
     (if pending l then 0 else 1) + attemptsStarted es (step (Change now) l)"
| "attemptsStarted (e # es) l = attemptsStarted es (step e l)"

text \<open>
  A run in which every read returns the position \<open>P\<close>: each timeout that runs meets an
  accessor whose trimmed result is \<open>P\<close>.
\<close>

fun readReturns :: "string \<Rightarrow> event \<Rightarrow> bool" where
  "readReturns P (Timeout h now src) = (getFEN src = Some P)"
| "readReturns P e = True"

text \<open>
  The shape of the timeout table that every run keeps: at most one timeout is
  scheduled, none while no attempt is pending, and the one scheduled is named by
  \<^verbatim>\<open>settleTimer\<close> or \<^verbatim>\<open>confirmTimer\<close>.
\<close>

definition wellTimed :: "listener \<Rightarrow> bool" where
  "wellTimed l =
     (length (timeouts l) \<le> 1 \<and> (\<not> pending l \<longrightarrow> timeouts l = []) \<and> nextHandle l \<noteq> 0
      \<and> (\<forall>t \<in> set (timeouts l).
            fst t \<noteq> 0 \<and> (settleTimer l = Some (fst t) \<or> confirmTimer l = Some (fst t))))"

text \<open>
  \<^verbatim>\<open>setTimeout\<close> hands out the handles in order, so a handle tells when its timeout was
  scheduled: before the moment at which the next handle was \<open>n\<close> if it is below \<open>n\<close>, and
  from that moment on if not. \<open>scheduledFrom n l\<close>: every timeout scheduled in \<open>l\<close> was
  scheduled from that moment on.
\<close>

definition scheduledFrom :: "nat \<Rightarrow> listener \<Rightarrow> bool" where
  "scheduledFrom n l = (n \<le> nextHandle l \<and> (\<forall>t \<in> set (timeouts l). n \<le> fst t))"

definition handlesBelow :: "listener \<Rightarrow> bool" where
  "handlesBelow l = (\<forall>t \<in> set (timeouts l). fst t < nextHandle l)"

section \<open>The direct feed: the WebSocket message listener (mainListener.js)\<close>

text \<open>
  The number that \<^verbatim>\<open>%\<close> works on: not a number, infinite, a whole number, or a
  number with a fraction.
\<close>

datatype js_number = NotANumber | Infinite | Whole int | Fractional

text \<open>
  The ply of a payload, as JSON can carry it: missing, \<^verbatim>\<open>null\<close>, a boolean, a number, or
  a string, array or object. For the last three the conversion \<^verbatim>\<open>ToNumber\<close> follows the
  grammar of numeric strings; the message gives its result.
\<close>

datatype ply_value =
  PlyMissing | PlyNull | PlyBool bool | PlyNumber js_number | PlyOther js_number

fun toNumber :: "ply_value \<Rightarrow> js_number" where
  "toNumber PlyMissing = NotANumber"
| "toNumber PlyNull = Whole 0"
| "toNumber (PlyBool b) = Whole (if b then 1 else 0)"
| "toNumber (PlyNumber x) = x"
| "toNumber (PlyOther x) = x"

text \<open>
  A parsed message, with the fields that the listener reads. \<open>None\<close> is a missing
  field; \<open>d_player_color\<close> is \<^verbatim>\<open>msg.d.player.color\<close>, missing when \<^verbatim>\<open>player\<close> is. The
  status is a number where present.
\<close>

record ws_payload =
  d_id :: "string option"
  d_player_color :: "string option"
  d_status :: "int option"
  d_fen :: js_value
  d_ply :: ply_value

record ws_message =
  m_t :: "string option"
  m_type :: "string option"
  m_id :: "string option"
  m_status :: "int option"
  m_d :: "ws_payload option"

text \<open>
  \<^verbatim>\<open>calculateMove\<close> posts two commands to the engine,
  \<^verbatim>\<open>position fen ...\<close> and \<^verbatim>\<open>go depth 4 movetime ...\<close>, and touches no variable.
\<close>

datatype engine_cmd = PositionFen string | GoDepthMovetime int int

definition calculateMove :: "engine_globals \<Rightarrow> engine_cmd list" where
  "calculateMove g =
     (if \<not> autoMoveEnabled g then []
      else
        case (chessEngine g, currentFen g) of
          (Some e, Some fen) \<Rightarrow>
            if fen = [] then [] else [PositionFen fen, GoDepthMovetime 4 (timeLimitMs g)]
        | _ \<Rightarrow> [])"

definition isKind :: "ws_message \<Rightarrow> string \<Rightarrow> bool" where
  "isKind msg k = (m_t msg = Some k \<or> m_type msg = Some k)"

text \<open>A string field that is there and not empty, as \<^verbatim>\<open>if (msg.id)\<close> asks.\<close>

definition present :: "string option \<Rightarrow> bool" where
  "present x = (case x of Some s \<Rightarrow> s \<noteq> [] | None \<Rightarrow> False)"

text \<open>The \<^verbatim>\<open>gameFull\<close> branch: the game id and the colour played.\<close>

definition noteGameFull :: "ws_message \<Rightarrow> engine_globals \<Rightarrow> engine_globals" where
  "noteGameFull msg g =
     (let dId = (case m_d msg of Some d \<Rightarrow> d_id d | None \<Rightarrow> None);
          color = (case m_d msg of Some d \<Rightarrow> d_player_color d | None \<Rightarrow> None);
          g1 = (if present (m_id msg) then g\<lparr> gameId := m_id msg \<rparr>
                else if present dId then g\<lparr> gameId := dId \<rparr>
                else g)
      in if present color then g1\<lparr> isWhite := Some (color = Some ''white'') \<rparr> else g1)"

text \<open>\<^verbatim>\<open>msg.status || (msg.d && msg.d.status)\<close>, and the test \<^verbatim>\<open>status && status >= 30\<close>.\<close>

definition statusOf :: "ws_message \<Rightarrow> int option" where
  "statusOf msg =
     (case m_status msg of
        Some n \<Rightarrow> if n \<noteq> 0 then Some n
                  else (case m_d msg of Some d \<Rightarrow> d_status d | None \<Rightarrow> None)
      | None \<Rightarrow> (case m_d msg of Some d \<Rightarrow> d_status d | None \<Rightarrow> None))"

definition isGameEnd :: "ws_message \<Rightarrow> bool" where
  "isGameEnd msg =
     (isKind msg ''gameState''
      \<and> (case statusOf msg of Some n \<Rightarrow> n \<noteq> 0 \<and> 30 \<le> n | None \<Rightarrow> False))"

text \<open>
  \<^verbatim>\<open>msg.d.ply % 2 === 0\<close>: the remainder of JavaScript takes the sign of the dividend.
  The remainder of a number with a fraction is not 0, and that of \<^verbatim>\<open>NaN\<close> or of an
  infinite number is \<^verbatim>\<open>NaN\<close>.
\<close>

definition isWhitesTurn :: "ply_value \<Rightarrow> bool" where
  "isWhitesTurn ply = (case toNumber ply of Whole n \<Rightarrow> n smod 2 = 0 | _ \<Rightarrow> False)"

text \<open>
  Lines 62 to 71: \<^verbatim>\<open>fenStr\<close> is the position of the payload, with the colour appended
  when it contains neither \<open>w\<close> nor \<open>b\<close> between two spaces.
\<close>

definition withActiveColor :: "string \<Rightarrow> ply_value \<Rightarrow> string" where
  "withActiveColor fen ply =
     (if \<not> includesStr fen '' w '' \<and> \<not> includesStr fen '' b ''
      then fen @ (if isWhitesTurn ply then '' w'' else '' b'')
      else fen)"

text \<open>
  The message listener. The variables and functions of chess_engine_setup.js are
  there when that script is loaded in the page (\<open>Some g\<close>) and skipped by the
  \<^verbatim>\<open>typeof\<close> guards when it is not (\<open>None\<close>). The result is the listener, the engine
  script's variables and the commands posted to the engine.
\<close>

definition onMessage ::
  "ws_message \<Rightarrow> listener \<Rightarrow> engine_globals option
     \<Rightarrow> listener \<times> engine_globals option \<times> engine_cmd list" where
  "onMessage msg l eng =
     (let eng1 = (if isKind msg ''gameFull'' then map_option (noteGameFull msg) eng else eng)
      in if isGameEnd msg then (l, map_option handleGameEnd eng1, [])
         else if m_t msg = Some ''d'' \<or> m_t msg = Some ''move'' then
           (case m_d msg of
              None \<Rightarrow> (l, eng1, [])
            | Some d \<Rightarrow>
                (case d_fen d of
                   JString fen \<Rightarrow>
                     let fenStr = withActiveColor fen (d_ply d);
                         eng2 = map_option
                                  (\<lambda>g. g\<lparr> currentFen := completeFen (JString fenStr) \<rparr>) eng1;
                         l' = dispatch fenStr l;
                         cmds = (case eng2 of
                                   None \<Rightarrow> []
                                 | Some g \<Rightarrow>
                                     if autoMoveEnabled g
                                        \<and> ((isWhite g = Some True \<and> isWhitesTurn (d_ply d))
                                            \<or> (isWhite g \<noteq> Some True
                                                \<and> \<not> isWhitesTurn (d_ply d)))
                                     then calculateMove g else [])
                     in (l', eng2, cmds)
                 | _ \<Rightarrow> (l, eng1, [])))
         else (l, eng1, []))"

section \<open>Facts about the string functions\<close>

lemma pad_parts_eq: "pad_parts parts = parts @ replicate (6 - length parts) ''-''"
proof (induction parts rule: pad_parts.induct)
  case (1 parts)
  show ?case
  proof (cases "length parts < 6")
    case True
    then have "pad_parts parts = pad_parts (parts @ [''-''])"
      by (subst pad_parts.simps) simp
    also have "\<dots> = (parts @ [''-'']) @ replicate (6 - length (parts @ [''-''])) ''-''"
      using True by (rule "1.IH")
    also have "\<dots> = parts @ replicate (Suc (5 - length parts)) ''-''"
      by simp
    also have "Suc (5 - length parts) = 6 - length parts"
      using True by simp
    finally show ?thesis .
  next
    case False
    then show ?thesis
      by (subst pad_parts.simps) simp
  qed
qed

lemma length_pad_parts: "length (pad_parts parts) = max 6 (length parts)"
  by (simp add: pad_parts_eq)

lemma index_or_pad_ne: "d \<noteq> [] \<Longrightarrow> i < 6 \<Longrightarrow> index_or (pad_parts parts) i d \<noteq> []"
  by (simp add: index_or_def)

lemma splitFen_raw_nonempty: "splitFen fen = Some f \<Longrightarrow> raw f \<noteq> [] \<and> fen = Some (raw f)"
  by (auto simp add: splitFen_def Let_def split: option.splits if_splits)

lemma split_ws_not_Nil: "split_ws s \<noteq> []"
  by (subst split_ws.simps) simp

lemma split_ws_rest:
  assumes "dropWhile (\<lambda>c. \<not> isWhiteSpace c) s \<noteq> []"
  shows "split_ws s = takeWhile (\<lambda>c. \<not> isWhiteSpace c) s
                  # split_ws (dropWhile isWhiteSpace (dropWhile (\<lambda>c. \<not> isWhiteSpace c) s))"
proof -
  have "split_ws s =
     (if dropWhile (\<lambda>c. \<not> isWhiteSpace c) s = [] then [s]
      else takeWhile (\<lambda>c. \<not> isWhiteSpace c) s
             # split_ws (dropWhile isWhiteSpace (dropWhile (\<lambda>c. \<not> isWhiteSpace c) s)))"
    by (rule split_ws.simps)
  also have "\<dots> = takeWhile (\<lambda>c. \<not> isWhiteSpace c) s
             # split_ws (dropWhile isWhiteSpace (dropWhile (\<lambda>c. \<not> isWhiteSpace c) s))"
    using assms by (rule if_not_P)
  finally show ?thesis .
qed

lemma hd_split_ws: "hd (split_ws s) = takeWhile (\<lambda>c. \<not> isWhiteSpace c) s"
proof (cases "dropWhile (\<lambda>c. \<not> isWhiteSpace c) s = []")
  case True
  then have "\<forall>c \<in> set s. \<not> isWhiteSpace c"
    by (simp add: dropWhile_eq_Nil_conv)
  then have t: "takeWhile (\<lambda>c. \<not> isWhiteSpace c) s = s"
    by (simp add: takeWhile_eq_all_conv)
  have "split_ws s = [s]"
    using True by (subst split_ws.simps) simp
  then have "hd (split_ws s) = s"
    by simp
  also have "\<dots> = takeWhile (\<lambda>c. \<not> isWhiteSpace c) s"
    using t by (rule sym)
  finally show ?thesis .
next
  case False
  then have "split_ws s = takeWhile (\<lambda>c. \<not> isWhiteSpace c) s
                  # split_ws (dropWhile isWhiteSpace (dropWhile (\<lambda>c. \<not> isWhiteSpace c) s))"
    by (rule split_ws_rest)
  then show ?thesis
    by (rule arg_cong [where f = hd, THEN trans]) simp
qed

lemma takeWhile_not_Nil: "xs \<noteq> [] \<Longrightarrow> P (hd xs) \<Longrightarrow> takeWhile P xs \<noteq> []"
  by (cases xs) simp_all

lemma dropWhile_keeps_tail:
  assumes "\<not> P a"
  shows "\<exists>w. dropWhile P (u @ a # v) = w @ a # v"
proof (cases "\<forall>c \<in> set u. P c")
  case True
  then have "dropWhile P (u @ a # v) = dropWhile P (a # v)"
    by (simp add: dropWhile_append2)
  also have "\<dots> = [] @ a # v"
    using assms by simp
  finally show ?thesis by blast
next
  case False
  then obtain c where "c \<in> set u" "\<not> P c" by blast
  then have "dropWhile P (u @ a # v) = dropWhile P u @ a # v"
    by (rule dropWhile_append1)
  then show ?thesis by blast
qed

lemma second_token:
  assumes "isWhiteSpace a" "\<not> isWhiteSpace b"
  shows "truthy (js_index (split_ws (u @ a # b # v)) 1)"
proof -
  define r where "r = dropWhile (\<lambda>c. \<not> isWhiteSpace c) (u @ a # b # v)"
  define q where "q = dropWhile isWhiteSpace r"
  obtain w where rw: "r = w @ a # b # v"
    using dropWhile_keeps_tail [of "\<lambda>c. \<not> isWhiteSpace c" a u "b # v"] assms(1)
    unfolding r_def by auto
  have rne: "r \<noteq> []"
    unfolding rw by simp
  have "b \<in> set r"
    unfolding rw by simp
  with assms(2) have qne: "q \<noteq> []"
    unfolding q_def dropWhile_eq_Nil_conv by blast
  then have "\<not> isWhiteSpace (hd q)"
    unfolding q_def by (rule hd_dropWhile)
  with qne have t: "takeWhile (\<lambda>c. \<not> isWhiteSpace c) q \<noteq> []"
    by (rule takeWhile_not_Nil)
  have h: "hd (split_ws q) = takeWhile (\<lambda>c. \<not> isWhiteSpace c) q"
    by (rule hd_split_ws)
  have s: "split_ws (u @ a # b # v) = takeWhile (\<lambda>c. \<not> isWhiteSpace c) (u @ a # b # v) # split_ws q"
    using rne unfolding q_def r_def by (rule split_ws_rest)
  obtain y ys where y: "split_ws q = y # ys"
    using split_ws_not_Nil [of q] by (cases "split_ws q") auto
  with h t have "y \<noteq> []" by simp
  then show ?thesis
    unfolding s y by (simp add: js_index_def)
qed

lemma includesStr_set:
  "includesStr s (a # b # t) \<Longrightarrow> \<exists>u v. s = u @ a # b # v"
proof (induction s)
  case Nil
  then show ?case by simp
next
  case (Cons x xs)
  show ?case
  proof (cases "startsWith (x # xs) (a # b # t)")
    case True
    then obtain v where "x # xs = a # b # v"
      by (cases xs) auto
    then have "x # xs = [] @ a # b # v" by simp
    then show ?thesis by blast
  next
    case False
    with Cons.prems have "includesStr xs (a # b # t)" by auto
    then obtain u v where "xs = u @ a # b # v" using Cons.IH by blast
    then have "x # xs = (x # u) @ a # b # v" by simp
    then show ?thesis by blast
  qed
qed

lemma lacks_active_not_includes:
  assumes "\<not> truthy (js_index (split_ws fen) 1)" "\<not> isWhiteSpace b"
  shows "\<not> includesStr fen (CHR '' '' # b # t)"
proof
  assume "includesStr fen (CHR '' '' # b # t)"
  then obtain u v where "fen = u @ CHR '' '' # b # v"
    using includesStr_set by blast
  moreover have "isWhiteSpace CHR '' ''" by (simp add: isWhiteSpace_def)
  ultimately show False
    using assms second_token by blast
qed


lemma withActiveColor_nonempty: "withActiveColor fen ply \<noteq> []"
proof (cases fen)
  case Nil
  then show ?thesis by (simp add: withActiveColor_def)
next
  case (Cons c cs)
  then show ?thesis by (simp add: withActiveColor_def)
qed

lemma isWhitesTurn_even: "isWhitesTurn (PlyNumber (Whole n)) = even n"
  by (auto simp add: isWhitesTurn_def smod_int_alt_def sgn_if elim: evenE oddE)


section \<open>Facts about the stabilizer\<close>

lemma wellTimed_start: "wellTimed (startListener src)"
  by (simp add: wellTimed_def startListener_def dispatch_def Let_def split: option.splits)

lemma find_single:
  assumes "find (\<lambda>t. fst t = h) ts = Some (h', due, cb)" "length ts \<le> 1"
  shows "ts = [(h, due, cb)] \<and> h' = h"
  using assms by (cases ts) (auto split: if_splits)

lemma wellTimed_change: "wellTimed l \<Longrightarrow> wellTimed (onAnyChange now l)"
  by (simp add: wellTimed_def onAnyChange_def stableEmit_def setTimeout_def)

lemma wellTimed_attempt:
  "nextHandle l \<noteq> 0 \<Longrightarrow> timeouts l = [] \<Longrightarrow> pending l \<Longrightarrow> wellTimed (attempt start now src l)"
  by (simp add: wellTimed_def attempt_def setTimeout_def split: option.splits)

lemma wellTimed_confirm:
  "nextHandle l \<noteq> 0 \<Longrightarrow> timeouts l = [] \<Longrightarrow> pending l \<Longrightarrow> wellTimed (confirm start f1 now src l)"
  by (simp add: wellTimed_def confirm_def setTimeout_def dispatch_def Let_def split: option.splits)

lemma wellTimed_clearTimers: "wellTimed l \<Longrightarrow> wellTimed (clearTimers l)"
  by (auto simp add: wellTimed_def clearTimers_def clearTimeout_def Let_def
      intro: le_trans [OF length_filter_le] split: option.splits)

lemma wellTimed_step: "wellTimed l \<Longrightarrow> wellTimed (step e l)"
proof (cases e)
  case (Change now)
  assume "wellTimed l"
  then show ?thesis using Change by (simp add: wellTimed_change)
next
  case (Timeout h now src)
  assume w: "wellTimed l"
  show ?thesis
  proof (cases "find (\<lambda>t. fst t = h) (timeouts l)")
    case None
    then show ?thesis using Timeout w by simp
  next
    case (Some t)
    obtain h' due cb where t: "t = (h', due, cb)" by (cases t)
    from Some t w have ts: "timeouts l = [(h, due, cb)]" and "h' = h"
      using find_single [of h "timeouts l" h' due cb] by (simp_all add: wellTimed_def)
    from ts w have p: "pending l" and n: "nextHandle l \<noteq> 0"
      by (auto simp: wellTimed_def)
    have c: "timeouts (clearTimeout h l) = []" "pending (clearTimeout h l)"
      "nextHandle (clearTimeout h l) \<noteq> 0"
      using ts p n by (simp_all add: clearTimeout_def)
    show ?thesis
      using Timeout Some t w c
      by (cases cb) (simp_all add: wellTimed_attempt wellTimed_confirm)
  qed
next
  case Teardown
  assume "wellTimed l"
  then show ?thesis using Teardown by (simp add: wellTimed_clearTimers)
qed

lemma wellTimed_run: "wellTimed l \<Longrightarrow> wellTimed (run evs l)"
  by (induction evs arbitrary: l) (simp_all add: wellTimed_step)

lemma clearTimers_empties: "wellTimed l \<Longrightarrow> timeouts (clearTimers l) = []"
proof -
  assume w: "wellTimed l"
  show ?thesis
  proof (cases "timeouts l")
    case Nil
    then show ?thesis
      by (simp add: clearTimers_def clearTimeout_def Let_def split: option.splits)
  next
    case (Cons t ts)
    with w have ts: "timeouts l = [t]" by (simp add: wellTimed_def)
    with w have "fst t \<noteq> 0" "settleTimer l = Some (fst t) \<or> confirmTimer l = Some (fst t)"
      by (simp_all add: wellTimed_def)
    then show ?thesis using ts
      by (auto simp add: clearTimers_def clearTimeout_def Let_def split: option.splits)
  qed
qed


lemma keeps_change:
  "dispatched (onAnyChange now l) = dispatched l
   \<and> lastSentPlacement (onAnyChange now l) = lastSentPlacement l
   \<and> lastSentActive (onAnyChange now l) = lastSentActive l"
  by (simp add: onAnyChange_def stableEmit_def setTimeout_def)

lemma keeps_clearTimers:
  "dispatched (clearTimers l) = dispatched l
   \<and> lastSentPlacement (clearTimers l) = lastSentPlacement l
   \<and> lastSentActive (clearTimers l) = lastSentActive l"
  by (simp add: clearTimers_def clearTimeout_def Let_def split: option.splits)

lemma keeps_attempt:
  "dispatched (attempt start now src l) = dispatched l
   \<and> lastSentPlacement (attempt start now src l) = lastSentPlacement l
   \<and> lastSentActive (attempt start now src l) = lastSentActive l"
  by (simp add: attempt_def setTimeout_def split: option.splits)

lemma keeps_confirm:
  assumes "splitFen (getFEN src) = Some p" "lastSentPlacement l = placement p"
    "lastSentActive l = JString (active p)"
  shows "dispatched (confirm start f1 now src l) = dispatched l
   \<and> lastSentPlacement (confirm start f1 now src l) = lastSentPlacement l
   \<and> lastSentActive (confirm start f1 now src l) = lastSentActive l"
  using assms by (simp add: confirm_def setTimeout_def Let_def)

lemma keeps_step:
  assumes "\<forall>h now src. e = Timeout h now src \<longrightarrow> splitFen (getFEN src) = Some p"
    and "lastSentPlacement l = placement p" "lastSentActive l = JString (active p)"
  shows "dispatched (step e l) = dispatched l
   \<and> lastSentPlacement (step e l) = lastSentPlacement l
   \<and> lastSentActive (step e l) = lastSentActive l"
proof (cases e)
  case (Change now)
  then show ?thesis by (simp add: keeps_change)
next
  case (Timeout h now src)
  with assms have s: "splitFen (getFEN src) = Some p" by simp
  have c: "lastSentPlacement (clearTimeout h l) = placement p"
    "lastSentActive (clearTimeout h l) = JString (active p)"
    "dispatched (clearTimeout h l) = dispatched l"
    using assms by (simp_all add: clearTimeout_def)
  show ?thesis
    using Timeout c keeps_attempt keeps_confirm [OF s c(1) c(2)] assms(2,3)
    by (simp split: option.splits callback.splits)
next
  case Teardown
  then show ?thesis by (simp add: keeps_clearTimers)
qed


lemma run_burst_pending: "pending l \<Longrightarrow> run (map Change ts) l = l"
  by (induction ts) (simp_all add: onAnyChange_def)

lemma started_burst_pending: "pending l \<Longrightarrow> attemptsStarted (map Change ts) l = 0"
  by (induction ts) (simp_all add: onAnyChange_def)

lemma pending_after_change: "pending (onAnyChange now l)"
  by (simp add: onAnyChange_def stableEmit_def setTimeout_def)

lemma started_burst_le: "attemptsStarted (map Change ts) l \<le> 1"
proof (cases ts)
  case Nil
  then show ?thesis by simp
next
  case (Cons t ts')
  have "attemptsStarted (map Change ts') (onAnyChange t l) = 0"
    by (rule started_burst_pending) (rule pending_after_change)
  with Cons show ?thesis by simp
qed


lemma clearTimers_subset:
  "set (timeouts (clearTimers l)) \<subseteq> set (timeouts l)
   \<and> nextHandle (clearTimers l) = nextHandle l"
  by (auto simp add: clearTimers_def clearTimeout_def Let_def split: option.splits)

lemma scheduledFrom_step: "scheduledFrom n l \<Longrightarrow> scheduledFrom n (step e l)"
proof (cases e)
  case (Change now)
  assume "scheduledFrom n l"
  then show ?thesis
    using Change by (simp add: scheduledFrom_def onAnyChange_def stableEmit_def setTimeout_def)
next
  case (Timeout h now src)
  assume a: "scheduledFrom n l"
  then have c: "scheduledFrom n (clearTimeout h l)"
    by (simp add: scheduledFrom_def clearTimeout_def)
  have "scheduledFrom n (attempt start now src l')" if "scheduledFrom n l'" for start l'
    using that by (simp add: scheduledFrom_def attempt_def setTimeout_def split: option.splits)
  moreover have "scheduledFrom n (confirm start f1 now src l')" if "scheduledFrom n l'"
    for start f1 l'
    using that
    by (simp add: scheduledFrom_def confirm_def setTimeout_def dispatch_def Let_def
        split: option.splits)
  ultimately show ?thesis
    using Timeout a c by (simp split: option.splits callback.splits)
next
  case Teardown
  assume "scheduledFrom n l"
  then show ?thesis
    using Teardown clearTimers_subset [of l] by (auto simp add: scheduledFrom_def)
qed

lemma scheduledFrom_run: "scheduledFrom n l \<Longrightarrow> scheduledFrom n (run evs l)"
  by (induction evs arbitrary: l) (simp_all add: scheduledFrom_step)

lemma handlesBelow_step: "handlesBelow l \<Longrightarrow> handlesBelow (step e l)"
proof (cases e)
  case (Change now)
  assume "handlesBelow l"
  then show ?thesis
    using Change
    by (auto simp add: handlesBelow_def onAnyChange_def stableEmit_def setTimeout_def less_Suc_eq)
next
  case (Timeout h now src)
  assume a: "handlesBelow l"
  then have c: "handlesBelow (clearTimeout h l)"
    by (simp add: handlesBelow_def clearTimeout_def)
  have "handlesBelow (attempt start now src l')" if "handlesBelow l'" for start l'
    using that
    by (auto simp add: handlesBelow_def attempt_def setTimeout_def less_Suc_eq
        split: option.splits)
  moreover have "handlesBelow (confirm start f1 now src l')" if "handlesBelow l'"
    for start f1 l'
    using that
    by (auto simp add: handlesBelow_def confirm_def setTimeout_def dispatch_def Let_def
        less_Suc_eq split: option.splits)
  ultimately show ?thesis
    using Timeout a c by (simp split: option.splits callback.splits)
next
  case Teardown
  assume "handlesBelow l"
  then show ?thesis
    using Teardown clearTimers_subset [of l] by (auto simp add: handlesBelow_def)
qed

lemma handlesBelow_run: "handlesBelow l \<Longrightarrow> handlesBelow (run evs l)"
  by (induction evs arbitrary: l) (simp_all add: handlesBelow_step)

lemma handlesBelow_start: "handlesBelow (startListener src)"
  by (simp add: handlesBelow_def startListener_def dispatch_def Let_def split: option.splits)

lemma nextHandle_clearTimers: "nextHandle (clearTimers l) = nextHandle l"
  by (simp add: clearTimers_subset)

lemma timeouts_only_idle:
  "timeouts l = [] \<Longrightarrow> run (map (\<lambda>(h, t, s). Timeout h t s) fires) l = l"
  by (induction fires) (simp_all split: prod.splits)

lemma absent_read_iff:
  "splitFen (getFEN src) = None \<longleftrightarrow>
     src = ElementMissing \<or> src = GameMissing \<or> src = AccessorMissing \<or> src = AccessorThrows
     \<or> (\<exists>v. src = AccessorReturns v \<and> (typeof v \<noteq> ''string'' \<or> (\<exists>s. v = JString s \<and> trim s = [])))"
proof (cases src)
  case (AccessorReturns v)
  then show ?thesis
    by (cases v) (simp_all add: splitFen_def Let_def)
qed (simp_all add: splitFen_def)

lemma run_append: "run (es @ es') l = run es' (run es l)"
  by (induction es arbitrary: l) simp_all



section \<open>Example runs\<close>

lemma example_split:
  "splitFen (Some ''8/8/8/8/8/8/8/K b'')
     = Some \<lparr> placement = JString ''8/8/8/8/8/8/8/K'', active = ''b'', castling = ''-'',
              ep = ''-'', half = ''-'', full = ''-'', raw = ''8/8/8/8/8/8/8/K b'' \<rparr>"
  by (simp add: splitFen_def split_ws.simps pad_parts_eq isWhiteSpace_def js_index_def
      index_or_def)

lemma example_trim: "trim ''8/8/8/8/8/8/8/K b'' = ''8/8/8/8/8/8/8/K b''"
  by (simp add: trim_def isWhiteSpace_def)

lemma example_start:
  "startListener (AccessorReturns (JString ''8/8/8/8/8/8/8/K b''))
     = \<lparr> lastSentPlacement = JString ''8/8/8/8/8/8/8/K'', lastSentActive = JString ''b'',
         settleTimer = None, confirmTimer = None, pending = False, timeouts = [],
         nextHandle = 1, dispatched = [''8/8/8/8/8/8/8/K b''] \<rparr>"
  by (simp add: startListener_def example_trim example_split dispatch_def)

lemma example_cycle:
  "run [Change 0, Timeout 1 220 (AccessorReturns (JString ''8/8/8/8/8/8/8/K b'')),
        Timeout 2 340 (AccessorReturns (JString ''8/8/8/8/8/8/8/K b''))]
     (startListener ElementMissing)
   = \<lparr> lastSentPlacement = JString ''8/8/8/8/8/8/8/K'', lastSentActive = JString ''b'',
       settleTimer = Some 1, confirmTimer = Some 2, pending = False, timeouts = [],
       nextHandle = 3, dispatched = [''8/8/8/8/8/8/8/K b''] \<rparr>"
  by (simp add: startListener_def onAnyChange_def stableEmit_def setTimeout_def
      STABLE_DELAY_MS_def CONFIRM_DELAY_MS_def attempt_def confirm_def clearTimeout_def
      dispatch_def example_trim example_split splitFen_def [of None])

lemma example_pending:
  "run [Change 0] (startListener ElementMissing)
     = \<lparr> lastSentPlacement = JNull, lastSentActive = JNull, settleTimer = Some 1,
         confirmTimer = None, pending = True, timeouts = [(1, 220, Attempt 0)],
         nextHandle = 2, dispatched = [] \<rparr>"
  by (simp add: startListener_def splitFen_def onAnyChange_def stableEmit_def setTimeout_def
      STABLE_DELAY_MS_def)

section \<open>The claims\<close>

subsection \<open>C1: the deciding step\<close>

text \<open>
  Claim C1. The confirm callback has normalized its second sample \<open>f2\<close>; \<open>f1\<close> is the
  first sample, \<open>start\<close> the time at which the attempt began and \<open>now\<close> the clock.
  If the two samples agree on placement and active colour and \<open>f2\<close> differs from the
  last position sent in one of the two, then \<open>raw f2\<close> is dispatched, the last sent
  placement and colour become those of \<open>f2\<close> and \<open>pending\<close> is cleared. Otherwise, if
  fewer than 1500 ms have passed since \<open>start\<close>, a new \<open>attempt\<close> is scheduled 220 ms
  from now and nothing else changes; and if not, \<open>pending\<close> is cleared and nothing is
  dispatched.
\<close>

theorem confirm_decides:
  assumes "splitFen (getFEN src) = Some f2"
  shows "confirm start f1 now src l =
           (if (placement f2 = placement f1 \<and> active f2 = active f1)
               \<and> (placement f2 \<noteq> lastSentPlacement l \<or> JString (active f2) \<noteq> lastSentActive l)
            then l\<lparr> lastSentPlacement := placement f2, lastSentActive := JString (active f2),
                    dispatched := dispatched l @ [raw f2], pending := False \<rparr>
            else if now - start < 1500
            then l\<lparr> timeouts := timeouts l @ [(nextHandle l, now + 220, Attempt start)],
                    nextHandle := Suc (nextHandle l), settleTimer := Some (nextHandle l) \<rparr>
            else l\<lparr> pending := False \<rparr>)"
  using assms splitFen_raw_nonempty [OF assms]
  by (auto simp add: confirm_def dispatch_def setTimeout_def Let_def MAX_WAIT_MS_def
      STABLE_DELAY_MS_def)

theorem confirm_decides_witness:
  "splitFen (getFEN (AccessorReturns (JString ''8/8/8/8/8/8/8/K b'')))
     = Some \<lparr> placement = JString ''8/8/8/8/8/8/8/K'', active = ''b'', castling = ''-'',
              ep = ''-'', half = ''-'', full = ''-'', raw = ''8/8/8/8/8/8/8/K b'' \<rparr>
   \<and> confirm 0 \<lparr> placement = JString ''8/8/8/8/8/8/8/K'', active = ''b'', castling = ''-'',
              ep = ''-'', half = ''-'', full = ''-'', raw = ''8/8/8/8/8/8/8/K b'' \<rparr>
        340 (AccessorReturns (JString ''8/8/8/8/8/8/8/K b''))
        \<lparr> lastSentPlacement = JString ''8/8/8/8/8/8/8/k'', lastSentActive = JString ''w'',
          settleTimer = Some 1, confirmTimer = Some 2, pending = True, timeouts = [],
          nextHandle = 3, dispatched = [''8/8/8/8/8/8/8/k w''] \<rparr>
     = \<lparr> lastSentPlacement = JString ''8/8/8/8/8/8/8/K'', lastSentActive = JString ''b'',
          settleTimer = Some 1, confirmTimer = Some 2, pending = False, timeouts = [],
          nextHandle = 3, dispatched = [''8/8/8/8/8/8/8/k w'', ''8/8/8/8/8/8/8/K b''] \<rparr>"
proof -
  have h: "splitFen (getFEN (AccessorReturns (JString ''8/8/8/8/8/8/8/K b'')))
     = Some \<lparr> placement = JString ''8/8/8/8/8/8/8/K'', active = ''b'', castling = ''-'',
              ep = ''-'', half = ''-'', full = ''-'', raw = ''8/8/8/8/8/8/8/K b'' \<rparr>"
    by (simp add: splitFen_def trim_def split_ws.simps pad_parts_eq isWhiteSpace_def
        js_index_def index_or_def)
  show ?thesis
    using h confirm_decides [OF h, of 0 "\<lparr> placement = JString ''8/8/8/8/8/8/8/K'', active = ''b'', castling = ''-'',
              ep = ''-'', half = ''-'', full = ''-'', raw = ''8/8/8/8/8/8/8/K b'' \<rparr>" 340
        "\<lparr> lastSentPlacement = JString ''8/8/8/8/8/8/8/k'', lastSentActive = JString ''w'',
          settleTimer = Some 1, confirmTimer = Some 2, pending = True, timeouts = [],
          nextHandle = 3, dispatched = [''8/8/8/8/8/8/8/k w''] \<rparr>"]
    by simp
qed

subsection \<open>C2: the defaults of the normalizer\<close>

text \<open>
  Claim C2 says that a placement-only string is normalized to active \<open>?\<close>, castling
  and en passant \<open>-\<close>, half-move clock \<open>0\<close> and full-move number \<open>1\<close>. The loop of
  \<^verbatim>\<open>splitFen\<close> has filled the five missing places with \<open>-\<close> before the defaults
  \<^verbatim>\<open>|| '?'\<close>, \<^verbatim>\<open>|| '0'\<close> and \<^verbatim>\<open>|| '1'\<close> are read, so they find a non-empty string and
  do not apply: all five fields are \<open>-\<close>.
\<close>

theorem splitFen_placement_only:
  "splitFen (Some ''rnbqkbnr/pppppppp/8/8/8/8/PPPPPPPP/RNBQKBNR'')
     = Some \<lparr> placement = JString ''rnbqkbnr/pppppppp/8/8/8/8/PPPPPPPP/RNBQKBNR'',
              active = ''-'', castling = ''-'', ep = ''-'', half = ''-'', full = ''-'',
              raw = ''rnbqkbnr/pppppppp/8/8/8/8/PPPPPPPP/RNBQKBNR'' \<rparr>"
  by (simp add: splitFen_def split_ws.simps pad_parts_eq isWhiteSpace_def js_index_def
      index_or_def)

subsection \<open>C3: one attempt at a time\<close>

text \<open>
  Claim C3. Let \<open>l\<close> be the listener after any sequence of change notifications, timeouts
  and calls of \<^verbatim>\<open>clearTimers\<close>. At most one timeout is scheduled in \<open>l\<close>, so at most one
  attempt is under way. If \<open>pending\<close> holds in \<open>l\<close>, a change notification changes
  nothing, a burst of notifications leaves no trace on what follows, and it starts no
  attempt. In any state a burst of notifications starts at most one attempt.
\<close>

theorem single_flight:
  assumes "l = run evs (startListener src)"
  shows "length (timeouts l) \<le> 1
   \<and> (pending l \<longrightarrow>
        step (Change now) l = l
        \<and> run (map Change ts @ evs') l = run evs' l
        \<and> attemptsStarted (map Change ts) l = 0)
   \<and> attemptsStarted (map Change ts) l \<le> 1"
proof -
  have "wellTimed l"
    unfolding assms by (rule wellTimed_run) (rule wellTimed_start)
  then have "length (timeouts l) \<le> 1"
    by (simp add: wellTimed_def)
  then show ?thesis
    using started_burst_le [of ts l]
    by (simp add: run_append run_burst_pending started_burst_pending onAnyChange_def)
qed

theorem single_flight_witness:
  "pending (run [Change 0] (startListener ElementMissing))
   \<and> length (timeouts (run [Change 0] (startListener ElementMissing))) \<le> 1
   \<and> step (Change 50) (run [Change 0] (startListener ElementMissing))
       = run [Change 0] (startListener ElementMissing)
   \<and> run (map Change [10, 20, 30] @ [Timeout 1 220 AccessorThrows])
         (run [Change 0] (startListener ElementMissing))
       = run [Timeout 1 220 AccessorThrows] (run [Change 0] (startListener ElementMissing))
   \<and> attemptsStarted (map Change [10, 20, 30]) (run [Change 0] (startListener ElementMissing)) = 0"
proof -
  have p: "pending (run [Change 0] (startListener ElementMissing))"
    by (simp add: startListener_def splitFen_def onAnyChange_def stableEmit_def setTimeout_def)
  show ?thesis
    using p single_flight [OF refl, of "[Change 0]" ElementMissing 50 "[10, 20, 30]"
        "[Timeout 1 220 AccessorThrows]"]
    by blast
qed

subsection \<open>C4: no second emission of the same position\<close>

text \<open>
  Claim C4. Let the position \<open>P\<close> normalize to \<open>p\<close>, and let the placement and active
  colour of \<open>p\<close> be the ones last sent. Then a run of any length in which every read
  returns \<open>P\<close> dispatches nothing and leaves the last sent placement and colour as they
  were.
\<close>

theorem idempotent_emission:
  assumes "splitFen (Some P) = Some p"
    and "lastSentPlacement l = placement p" and "lastSentActive l = JString (active p)"
    and "list_all (readReturns P) evs"
  shows "dispatched (run evs l) = dispatched l
   \<and> lastSentPlacement (run evs l) = lastSentPlacement l
   \<and> lastSentActive (run evs l) = lastSentActive l"
  using assms(2-)
proof (induction evs arbitrary: l)
  case Nil
  then show ?case by simp
next
  case (Cons e evs)
  have "\<forall>h now src. e = Timeout h now src \<longrightarrow> splitFen (getFEN src) = Some p"
    using Cons.prems(3) assms(1) by auto
  from keeps_step [OF this Cons.prems(1) Cons.prems(2)]
  have k: "dispatched (step e l) = dispatched l"
    "lastSentPlacement (step e l) = lastSentPlacement l"
    "lastSentActive (step e l) = lastSentActive l"
    by simp_all
  have "dispatched (run evs (step e l)) = dispatched (step e l)
   \<and> lastSentPlacement (run evs (step e l)) = lastSentPlacement (step e l)
   \<and> lastSentActive (run evs (step e l)) = lastSentActive (step e l)"
    using Cons.prems k by (intro Cons.IH) simp_all
  with k show ?case by simp
qed

theorem idempotent_emission_witness:
  "splitFen (Some ''8/8/8/8/8/8/8/K b'')
     = Some \<lparr> placement = JString ''8/8/8/8/8/8/8/K'', active = ''b'', castling = ''-'',
              ep = ''-'', half = ''-'', full = ''-'', raw = ''8/8/8/8/8/8/8/K b'' \<rparr>
   \<and> list_all (readReturns ''8/8/8/8/8/8/8/K b'')
         [Change 0, Timeout 1 220 (AccessorReturns (JString ''8/8/8/8/8/8/8/K b'')),
          Timeout 2 340 (AccessorReturns (JString ''8/8/8/8/8/8/8/K b'')), Change 400]
   \<and> dispatched
         (run [Change 0, Timeout 1 220 (AccessorReturns (JString ''8/8/8/8/8/8/8/K b'')),
               Timeout 2 340 (AccessorReturns (JString ''8/8/8/8/8/8/8/K b'')), Change 400]
            (startListener (AccessorReturns (JString ''8/8/8/8/8/8/8/K b''))))
       = [''8/8/8/8/8/8/8/K b'']"
proof -
  let ?src = "AccessorReturns (JString ''8/8/8/8/8/8/8/K b'')"
  let ?evs = "[Change 0, Timeout 1 220 ?src, Timeout 2 340 ?src, Change 400]"
  have r: "list_all (readReturns ''8/8/8/8/8/8/8/K b'') ?evs"
    by (simp add: example_trim)
  have a: "lastSentPlacement (startListener ?src) = placement \<lparr> placement = JString ''8/8/8/8/8/8/8/K'', active = ''b'', castling = ''-'',
              ep = ''-'', half = ''-'', full = ''-'', raw = ''8/8/8/8/8/8/8/K b'' \<rparr>"
    by (simp add: example_start)
  have b: "lastSentActive (startListener ?src) = JString (active \<lparr> placement = JString ''8/8/8/8/8/8/8/K'', active = ''b'', castling = ''-'',
              ep = ''-'', half = ''-'', full = ''-'', raw = ''8/8/8/8/8/8/8/K b'' \<rparr>)"
    by (simp add: example_start)
  show ?thesis
    using r idempotent_emission [OF example_split a b r]
    by (simp add: example_split example_start)
qed

subsection \<open>C5: six fields\<close>

text \<open>
  Claim C5 says that the normalizer returns six fields for every raw string, from no
  token on. The raw string without a token is the empty one, which is also what the
  reader returns for a board string of white space only; for it \<^verbatim>\<open>splitFen\<close> returns
  \<^verbatim>\<open>null\<close> and no record.
\<close>

theorem splitFen_empty_absent:
  "getFEN (AccessorReturns (JString ''  '')) = Some [] \<and> splitFen (Some []) = None"
  by (simp add: splitFen_def trim_def isWhiteSpace_def)

text \<open>
  Claim C5 as amended. For every raw string that is not empty, whatever the number of
  its tokens, \<^verbatim>\<open>splitFen\<close> returns a record whose \<open>raw\<close> is the input itself and whose
  six fields are all there: the placement is the first token, and each of the five
  others is the token in its place, or \<open>-\<close> when the string has no such token, or the
  field's own default when that token is empty. None of the five is empty.
\<close>

theorem splitFen_six_fields:
  assumes "s \<noteq> []"
  shows "\<exists>f. splitFen (Some s) = Some f \<and> raw f = s
           \<and> placement f = JString (hd (split_ws s))
           \<and> active f = (if 1 < length (split_ws s)
                          then (if split_ws s ! 1 = [] then ''?'' else split_ws s ! 1)
                          else ''-'')
           \<and> castling f = (if 2 < length (split_ws s) \<and> split_ws s ! 2 \<noteq> []
                            then split_ws s ! 2 else ''-'')
           \<and> ep f = (if 3 < length (split_ws s) \<and> split_ws s ! 3 \<noteq> []
                      then split_ws s ! 3 else ''-'')
           \<and> half f = (if 4 < length (split_ws s)
                        then (if split_ws s ! 4 = [] then ''0'' else split_ws s ! 4)
                        else ''-'')
           \<and> full f = (if 5 < length (split_ws s)
                        then (if split_ws s ! 5 = [] then ''1'' else split_ws s ! 5)
                        else ''-'')
           \<and> active f \<noteq> [] \<and> castling f \<noteq> [] \<and> ep f \<noteq> [] \<and> half f \<noteq> [] \<and> full f \<noteq> []"
proof -
  obtain y ys where y: "split_ws s = y # ys"
    using split_ws_not_Nil [of s] by (cases "split_ws s") auto
  show ?thesis
    using assms
    by (simp add: splitFen_def Let_def pad_parts_eq js_index_def index_or_def nth_append y)
qed

theorem splitFen_six_fields_witness:
  "''8/8/8/8/8/8/8/8 b KQ e3 4 9 extra'' \<noteq> []
   \<and> splitFen (Some ''8/8/8/8/8/8/8/8 b KQ e3 4 9 extra'')
       = Some \<lparr> placement = JString ''8/8/8/8/8/8/8/8'', active = ''b'', castling = ''KQ'',
                ep = ''e3'', half = ''4'', full = ''9'',
                raw = ''8/8/8/8/8/8/8/8 b KQ e3 4 9 extra'' \<rparr>"
proof -
  have h: "''8/8/8/8/8/8/8/8 b KQ e3 4 9 extra'' \<noteq> []"
    by simp
  have t: "split_ws ''8/8/8/8/8/8/8/8 b KQ e3 4 9 extra''
             = [''8/8/8/8/8/8/8/8'', ''b'', ''KQ'', ''e3'', ''4'', ''9'', ''extra'']"
    by (simp add: split_ws.simps isWhiteSpace_def)
  obtain f where f: "splitFen (Some ''8/8/8/8/8/8/8/8 b KQ e3 4 9 extra'') = Some f"
    "raw f = ''8/8/8/8/8/8/8/8 b KQ e3 4 9 extra''"
    "placement f = JString ''8/8/8/8/8/8/8/8''" "active f = ''b''" "castling f = ''KQ''"
    "ep f = ''e3''" "half f = ''4''" "full f = ''9''"
    using splitFen_six_fields [OF h] unfolding t by auto
  then have "f = \<lparr> placement = JString ''8/8/8/8/8/8/8/8'', active = ''b'', castling = ''KQ'',
                ep = ''e3'', half = ''4'', full = ''9'',
                raw = ''8/8/8/8/8/8/8/8 b KQ e3 4 9 extra'' \<rparr>"
    by (cases f) simp
  with f(1) h show ?thesis by simp
qed


subsection \<open>C6: timers at the start of a cycle and at teardown\<close>

text \<open>
  Claim C6. Let \<open>l\<close> be the listener after any run; the timeouts scheduled so far are the
  ones with a handle below \<open>nextHandle l\<close>. When a cycle starts in \<open>l\<close>, its own settle
  timer, due 220 ms later, is the only timeout scheduled, and whatever follows, only
  timeouts scheduled since the start are ever in the table: none of the earlier ones
  is left to run its callback. After \<^verbatim>\<open>clearTimers\<close>, the teardown, no timeout is
  scheduled, none of the earlier ones comes back whatever follows, and timer firings
  alone change nothing. (The guard on \<open>pending\<close> lets a cycle start only when the timers
  of the cycle before have run, so \<^verbatim>\<open>stableEmit\<close> finds none to cancel.)
\<close>

theorem timers_of_earlier_cycles:
  assumes "l = run evs (startListener src)"
  shows "(\<forall>t \<in> set (timeouts l). fst t < nextHandle l)
   \<and> (\<not> pending l \<longrightarrow>
        timeouts (step (Change now) l) = [(nextHandle l, now + 220, Attempt now)]
        \<and> (\<forall>t \<in> set (timeouts (run evs' (step (Change now) l))). nextHandle l \<le> fst t))
   \<and> timeouts (step Teardown l) = []
   \<and> (\<forall>t \<in> set (timeouts (run evs' (step Teardown l))). nextHandle l \<le> fst t)
   \<and> run (map (\<lambda>(h, t, s). Timeout h t s) fires) (step Teardown l) = step Teardown l"
proof -
  have w: "wellTimed l"
    unfolding assms by (rule wellTimed_run) (rule wellTimed_start)
  have b: "\<forall>t \<in> set (timeouts l). fst t < nextHandle l"
    using handlesBelow_run [OF handlesBelow_start, of evs src]
    unfolding assms handlesBelow_def .
  have e: "timeouts (step Teardown l) = []"
    using w by (simp add: clearTimers_empties)
  then have "scheduledFrom (nextHandle l) (step Teardown l)"
    by (simp add: scheduledFrom_def nextHandle_clearTimers)
  then have "scheduledFrom (nextHandle l) (run evs' (step Teardown l))"
    by (rule scheduledFrom_run)
  then have t: "\<forall>t \<in> set (timeouts (run evs' (step Teardown l))). nextHandle l \<le> fst t"
    by (simp add: scheduledFrom_def)
  have f: "run (map (\<lambda>(h, t, s). Timeout h t s) fires) (step Teardown l) = step Teardown l"
    using e by (rule timeouts_only_idle)
  have c: "timeouts (step (Change now) l) = [(nextHandle l, now + 220, Attempt now)]
        \<and> (\<forall>t \<in> set (timeouts (run evs' (step (Change now) l))). nextHandle l \<le> fst t)"
    if p: "\<not> pending l"
  proof -
    from w p have i: "timeouts l = []"
      by (simp add: wellTimed_def)
    with p have s: "timeouts (step (Change now) l) = [(nextHandle l, now + 220, Attempt now)]"
      by (simp add: onAnyChange_def stableEmit_def setTimeout_def STABLE_DELAY_MS_def)
    have "scheduledFrom (nextHandle l) (step (Change now) l)"
      using p i by (simp add: scheduledFrom_def onAnyChange_def stableEmit_def setTimeout_def)
    then have "scheduledFrom (nextHandle l) (run evs' (step (Change now) l))"
      by (rule scheduledFrom_run)
    with s show ?thesis
      by (simp add: scheduledFrom_def)
  qed
  show ?thesis
    using b c e t f by blast
qed


theorem timers_of_earlier_cycles_witness:
  "\<not> pending (run [Change 0, Timeout 1 220 (AccessorReturns (JString ''8/8/8/8/8/8/8/K b'')),
                   Timeout 2 340 (AccessorReturns (JString ''8/8/8/8/8/8/8/K b''))]
                (startListener ElementMissing))
   \<and> timeouts (step (Change 400)
        (run [Change 0, Timeout 1 220 (AccessorReturns (JString ''8/8/8/8/8/8/8/K b'')),
              Timeout 2 340 (AccessorReturns (JString ''8/8/8/8/8/8/8/K b''))]
           (startListener ElementMissing)))
       = [(3, 620, Attempt 400)]
   \<and> timeouts (run [Timeout 3 620 AccessorThrows, Change 700]
        (step (Change 400)
          (run [Change 0, Timeout 1 220 (AccessorReturns (JString ''8/8/8/8/8/8/8/K b'')),
                Timeout 2 340 (AccessorReturns (JString ''8/8/8/8/8/8/8/K b''))]
             (startListener ElementMissing))))
       = [(4, 920, Attempt 700)]
   \<and> timeouts (run [Change 0] (startListener ElementMissing)) = [(1, 220, Attempt 0)]
   \<and> nextHandle (run [Change 0] (startListener ElementMissing)) = 2
   \<and> timeouts (step Teardown (run [Change 0] (startListener ElementMissing))) = []
   \<and> run (map (\<lambda>(h, t, s). Timeout h t s) [(1, 230, AccessorThrows)])
         (step Teardown (run [Change 0] (startListener ElementMissing)))
       = step Teardown (run [Change 0] (startListener ElementMissing))"
proof -
  let ?evs = "[Change 0, Timeout 1 220 (AccessorReturns (JString ''8/8/8/8/8/8/8/K b'')),
               Timeout 2 340 (AccessorReturns (JString ''8/8/8/8/8/8/8/K b''))]"
  have p: "\<not> pending (run ?evs (startListener ElementMissing))"
    by (simp only: example_cycle) simp
  have n: "nextHandle (run ?evs (startListener ElementMissing)) = 3"
    by (simp only: example_cycle) simp
  have q: "timeouts (run [Change 0] (startListener ElementMissing)) = [(1, 220, Attempt 0)]"
    by (simp only: example_pending) simp
  have m: "nextHandle (run [Change 0] (startListener ElementMissing)) = 2"
    by (simp only: example_pending) simp
  have r: "timeouts (run [Timeout 3 620 AccessorThrows, Change 700]
              (step (Change 400) (run ?evs (startListener ElementMissing))))
             = [(4, 920, Attempt 700)]"
    by (simp only: example_cycle)
      (simp add: onAnyChange_def stableEmit_def setTimeout_def STABLE_DELAY_MS_def
        attempt_def clearTimeout_def splitFen_def)
  show ?thesis
    using p n q m r
      timers_of_earlier_cycles [OF refl, of ?evs ElementMissing 400
        "[Timeout 3 620 AccessorThrows, Change 700]"]
      timers_of_earlier_cycles [OF refl, of "[Change 0]" ElementMissing _ _
        "[(1, 230, AccessorThrows)]"]
    by (simp del: run.simps step.simps)
qed

subsection \<open>C7: a failed read\<close>

text \<open>
  Claim C7. A timeout of the listener (either callback) is due and runs while the read
  fails: the element, the game or the accessor is missing, the accessor throws, or it
  returns something that is not a string or a string that is empty once trimmed.
  Then the read is absent and nothing is raised, the attempt ends with \<open>pending\<close> cleared,
  nothing is dispatched, the last sent placement and colour are unchanged and no new
  timeout is scheduled.
\<close>

theorem read_failure_abandons:
  assumes "src = ElementMissing \<or> src = GameMissing \<or> src = AccessorMissing
           \<or> src = AccessorThrows
           \<or> (\<exists>v. src = AccessorReturns v
                  \<and> (typeof v \<noteq> ''string'' \<or> (\<exists>s. v = JString s \<and> trim s = [])))"
    and "find (\<lambda>t. fst t = h) (timeouts l) = Some (h, due, cb)" and "due \<le> now"
  shows "(getFEN src = None \<or> getFEN src = Some [])
   \<and> splitFen (getFEN src) = None
   \<and> step (Timeout h now src) l = (clearTimeout h l)\<lparr> pending := False \<rparr>
   \<and> pending (step (Timeout h now src) l) = False
   \<and> dispatched (step (Timeout h now src) l) = dispatched l
   \<and> lastSentPlacement (step (Timeout h now src) l) = lastSentPlacement l
   \<and> lastSentActive (step (Timeout h now src) l) = lastSentActive l
   \<and> timeouts (step (Timeout h now src) l) = filter (\<lambda>t. fst t \<noteq> h) (timeouts l)"
proof -
  have n: "splitFen (getFEN src) = None"
    using assms(1) by (simp only: absent_read_iff)
  have "step (Timeout h now src) l = (clearTimeout h l)\<lparr> pending := False \<rparr>"
    using assms(2,3) n by (cases cb) (simp_all add: attempt_def confirm_def)
  moreover have "getFEN src = None \<or> getFEN src = Some []"
    using n by (cases "getFEN src") (simp_all add: splitFen_def Let_def split: if_splits)
  ultimately show ?thesis
    using n by (simp add: clearTimeout_def)
qed

theorem read_failure_abandons_witness:
  "find (\<lambda>t. fst t = 1) (timeouts (run [Change 0] (startListener ElementMissing)))
     = Some (1, 220, Attempt 0)
   \<and> (220::int) \<le> 230
   \<and> pending (run [Change 0] (startListener ElementMissing))
   \<and> step (Timeout 1 230 AccessorThrows) (run [Change 0] (startListener ElementMissing))
       = \<lparr> lastSentPlacement = JNull, lastSentActive = JNull, settleTimer = Some 1,
           confirmTimer = None, pending = False, timeouts = [], nextHandle = 2,
           dispatched = [] \<rparr>"
proof -
  have l: "run [Change 0] (startListener ElementMissing)
       = \<lparr> lastSentPlacement = JNull, lastSentActive = JNull, settleTimer = Some 1,
           confirmTimer = None, pending = True, timeouts = [(1, 220, Attempt 0)],
           nextHandle = 2, dispatched = [] \<rparr>"
    by (simp add: startListener_def splitFen_def onAnyChange_def stableEmit_def setTimeout_def
        STABLE_DELAY_MS_def)
  have f: "find (\<lambda>t. fst t = 1) (timeouts (run [Change 0] (startListener ElementMissing)))
     = Some (1, 220, Attempt 0)"
    by (simp only: l) simp
  have d: "(220::int) \<le> 230"
    by simp
  have s: "AccessorThrows = ElementMissing \<or> AccessorThrows = GameMissing
           \<or> AccessorThrows = AccessorMissing \<or> AccessorThrows = AccessorThrows
           \<or> (\<exists>v. AccessorThrows = AccessorReturns v
                  \<and> (typeof v \<noteq> ''string'' \<or> (\<exists>s. v = JString s \<and> trim s = [])))"
    by simp
  show ?thesis
    using f d read_failure_abandons [OF s f d]
    by (simp only: l) (simp add: clearTimeout_def)
qed

subsection \<open>C8: the direct feed\<close>

text \<open>
  Claim C8 says that every pushed message carrying a position is emitted at once. The
  listener tests for the end of a game first: a message with \<open>t\<close> equal to \<^verbatim>\<open>move\<close> that
  is also marked \<^verbatim>\<open>gameState\<close> with status 30 returns before the position is read, and
  nothing is dispatched.
\<close>

theorem game_end_message_not_emitted:
  "dispatched
     (fst (onMessage
             \<lparr> m_t = Some ''move'', m_type = Some ''gameState'', m_id = None,
               m_status = Some 30,
               m_d = Some \<lparr> d_id = None, d_player_color = None, d_status = None,
                            d_fen = JString ''8/8/8/8/8/8/8/8'',
                            d_ply = PlyNumber (Whole 5) \<rparr> \<rparr>
             (startListener ElementMissing) None)) = []"
  by (simp add: onMessage_def isGameEnd_def isKind_def statusOf_def startListener_def
      splitFen_def)

text \<open>
  Claim C8 as amended. A message whose field \<open>t\<close> is \<^verbatim>\<open>d\<close> or \<^verbatim>\<open>move\<close>, whose payload
  holds the string \<open>fen\<close>, and which is not the end of a game, has one string \<open>e\<close>
  dispatched within the handler call: the listener's variables and timeouts are
  untouched, whatever \<open>pending\<close> is. When \<open>fen\<close> has no second token and the ply is the
  whole number \<open>n\<close>, \<open>e\<close> is \<open>fen\<close> with the colour appended, \<open>w\<close> for an even \<open>n\<close> and \<open>b\<close>
  for an odd one. When \<open>fen\<close> contains \<open>w\<close> or \<open>b\<close> between two spaces, \<open>e\<close> is \<open>fen\<close> itself.
\<close>

theorem direct_feed:
  assumes "m_t msg = Some ''d'' \<or> m_t msg = Some ''move''" and "m_d msg = Some d"
    and "d_fen d = JString fen" and "\<not> isGameEnd msg"
  shows "\<exists>e. fst (onMessage msg l eng) = l\<lparr> dispatched := dispatched l @ [e] \<rparr>
    \<and> (\<not> truthy (js_index (split_ws fen) 1) \<and> d_ply d = PlyNumber (Whole n) \<longrightarrow>
          e = fen @ (if even n then '' w'' else '' b''))
    \<and> (includesStr fen '' w '' \<or> includesStr fen '' b '' \<longrightarrow> e = fen)"
proof -
  have w: "\<not> isWhiteSpace CHR ''w''" and b: "\<not> isWhiteSpace CHR ''b''"
    by (simp_all add: isWhiteSpace_def)
  have "fst (onMessage msg l eng)
          = l\<lparr> dispatched := dispatched l @ [withActiveColor fen (d_ply d)] \<rparr>"
    using assms withActiveColor_nonempty [of fen "d_ply d"]
    by (auto simp add: onMessage_def Let_def dispatch_def)
  moreover have "withActiveColor fen (PlyNumber (Whole n))
                   = fen @ (if even n then '' w'' else '' b'')"
    if "\<not> truthy (js_index (split_ws fen) 1)"
    using lacks_active_not_includes [OF that w, of "'' ''"]
      lacks_active_not_includes [OF that b, of "'' ''"]
    by (simp add: withActiveColor_def isWhitesTurn_even)
  moreover have "withActiveColor fen (d_ply d) = fen"
    if "includesStr fen '' w '' \<or> includesStr fen '' b ''"
    using that by (auto simp add: withActiveColor_def)
  ultimately show ?thesis by auto
qed

theorem direct_feed_witness:
  "\<not> isGameEnd \<lparr> m_t = Some ''move'', m_type = None, m_id = None, m_status = None,
       m_d = Some \<lparr> d_id = None, d_player_color = None, d_status = None,
                    d_fen = JString ''8/8/8/8/8/8/8/8'', d_ply = PlyNumber (Whole 5) \<rparr> \<rparr>
   \<and> \<not> truthy (js_index (split_ws ''8/8/8/8/8/8/8/8'') 1)
   \<and> fst (onMessage
          \<lparr> m_t = Some ''move'', m_type = None, m_id = None, m_status = None,
            m_d = Some \<lparr> d_id = None, d_player_color = None, d_status = None,
                         d_fen = JString ''8/8/8/8/8/8/8/8'',
                         d_ply = PlyNumber (Whole 5) \<rparr> \<rparr>
          \<lparr> lastSentPlacement = JNull, lastSentActive = JNull, settleTimer = Some 1,
            confirmTimer = None, pending = True, timeouts = [(1, 220, Attempt 0)],
            nextHandle = 2, dispatched = [] \<rparr>
          None)
       = \<lparr> lastSentPlacement = JNull, lastSentActive = JNull, settleTimer = Some 1,
           confirmTimer = None, pending = True, timeouts = [(1, 220, Attempt 0)],
           nextHandle = 2, dispatched = [''8/8/8/8/8/8/8/8 b''] \<rparr>
   \<and> includesStr ''8/8/8/8/8/8/8/8 w - - 0 1'' '' w ''
   \<and> fst (onMessage
          \<lparr> m_t = Some ''d'', m_type = None, m_id = None, m_status = None,
            m_d = Some \<lparr> d_id = None, d_player_color = None, d_status = None,
                         d_fen = JString ''8/8/8/8/8/8/8/8 w - - 0 1'',
                         d_ply = PlyNumber (Whole 5) \<rparr> \<rparr>
          \<lparr> lastSentPlacement = JNull, lastSentActive = JNull, settleTimer = Some 1,
            confirmTimer = None, pending = True, timeouts = [(1, 220, Attempt 0)],
            nextHandle = 2, dispatched = [] \<rparr>
          None)
       = \<lparr> lastSentPlacement = JNull, lastSentActive = JNull, settleTimer = Some 1,
           confirmTimer = None, pending = True, timeouts = [(1, 220, Attempt 0)],
           nextHandle = 2, dispatched = [''8/8/8/8/8/8/8/8 w - - 0 1''] \<rparr>"
proof -
  let ?d = "\<lparr> d_id = None, d_player_color = None, d_status = None,
              d_fen = JString ''8/8/8/8/8/8/8/8'', d_ply = PlyNumber (Whole 5) \<rparr>"
  let ?msg = "\<lparr> m_t = Some ''move'', m_type = None, m_id = None, m_status = None,
                m_d = Some ?d \<rparr>"
  let ?d' = "\<lparr> d_id = None, d_player_color = None, d_status = None,
               d_fen = JString ''8/8/8/8/8/8/8/8 w - - 0 1'', d_ply = PlyNumber (Whole 5) \<rparr>"
  let ?msg' = "\<lparr> m_t = Some ''d'', m_type = None, m_id = None, m_status = None,
                 m_d = Some ?d' \<rparr>"
  let ?l = "\<lparr> lastSentPlacement = JNull, lastSentActive = JNull, settleTimer = Some 1,
            confirmTimer = None, pending = True, timeouts = [(1, 220, Attempt 0)],
            nextHandle = 2, dispatched = [] \<rparr>"
  have t: "m_t ?msg = Some ''d'' \<or> m_t ?msg = Some ''move''"
    and t': "m_t ?msg' = Some ''d'' \<or> m_t ?msg' = Some ''move''"
    by simp_all
  have d: "m_d ?msg = Some ?d" and d': "m_d ?msg' = Some ?d'"
    by simp_all
  have f: "d_fen ?d = JString ''8/8/8/8/8/8/8/8''"
    and f': "d_fen ?d' = JString ''8/8/8/8/8/8/8/8 w - - 0 1''"
    by simp_all
  have g: "\<not> isGameEnd ?msg" and g': "\<not> isGameEnd ?msg'"
    by (simp_all add: isGameEnd_def isKind_def)
  have a: "\<not> truthy (js_index (split_ws ''8/8/8/8/8/8/8/8'') 1)"
    by (simp add: split_ws.simps isWhiteSpace_def js_index_def)
  have i: "includesStr ''8/8/8/8/8/8/8/8 w - - 0 1'' '' w ''"
    by simp
  show ?thesis
    using g a i direct_feed [OF t d f g, of ?l None 5] direct_feed [OF t' d' f' g', of ?l None]
    by (simp del: includesStr.simps)
qed


subsection \<open>C9: completing a single token\<close>

text \<open>
  Claim C9. For a non-empty string whose trimmed form splits into the single token
  \<open>tok\<close>, \<^verbatim>\<open>completeFen\<close> returns \<open>tok\<close> followed by \<open>w KQkq - 0 1\<close>; for \<^verbatim>\<open>null\<close> and for
  every value that is not a string it returns \<^verbatim>\<open>null\<close>.
\<close>

theorem completeFen_single_token:
  "(s \<noteq> [] \<and> split_ws (trim s) = [tok]
      \<longrightarrow> completeFen (JString s) = Some (tok @ '' w KQkq - 0 1''))
   \<and> completeFen JNull = None
   \<and> (typeof v \<noteq> ''string'' \<longrightarrow> completeFen v = None)"
  by (simp add: completeFen_def index_or_def)

theorem completeFen_single_token_witness:
  "'' 8/8/8/8/8/8/8/8  '' \<noteq> [] \<and> split_ws (trim '' 8/8/8/8/8/8/8/8  '') = [''8/8/8/8/8/8/8/8'']
   \<and> completeFen (JString '' 8/8/8/8/8/8/8/8  '') = Some ''8/8/8/8/8/8/8/8 w KQkq - 0 1''
   \<and> typeof (JNumber 5) \<noteq> ''string'' \<and> completeFen (JNumber 5) = None"
proof -
  have h: "'' 8/8/8/8/8/8/8/8  '' \<noteq> []
           \<and> split_ws (trim '' 8/8/8/8/8/8/8/8  '') = [''8/8/8/8/8/8/8/8'']"
    by (simp add: trim_def split_ws.simps isWhiteSpace_def)
  have t: "typeof (JNumber 5) \<noteq> ''string''"
    by simp
  show ?thesis
    using h t
      completeFen_single_token [of "'' 8/8/8/8/8/8/8/8  ''" "''8/8/8/8/8/8/8/8''" "JNumber 5"]
    by simp
qed

subsection \<open>C10: what the end of a game resets\<close>

text \<open>
  Claim C10. \<^verbatim>\<open>handleGameEnd\<close> sets \<^verbatim>\<open>currentFen\<close>, \<^verbatim>\<open>bestMove\<close>, \<^verbatim>\<open>gameId\<close> and
  \<^verbatim>\<open>isWhite\<close> to \<^verbatim>\<open>null\<close> and leaves \<^verbatim>\<open>chessEngine\<close>, \<^verbatim>\<open>webSocketWrapper\<close>,
  \<^verbatim>\<open>timeLimitMs\<close> and \<^verbatim>\<open>autoMoveEnabled\<close> as they were; the module has no other
  variable.
\<close>

theorem handleGameEnd_frame:
  "currentFen (handleGameEnd g) = None \<and> bestMove (handleGameEnd g) = None
   \<and> gameId (handleGameEnd g) = None \<and> isWhite (handleGameEnd g) = None
   \<and> chessEngine (handleGameEnd g) = chessEngine g
   \<and> webSocketWrapper (handleGameEnd g) = webSocketWrapper g
   \<and> timeLimitMs (handleGameEnd g) = timeLimitMs g
   \<and> autoMoveEnabled (handleGameEnd g) = autoMoveEnabled g"
  by (simp add: handleGameEnd_def)

end
